theory Spec2Isabelle
  imports Complex_Main
begin

section \<open>The transition state machine of \<open>App\<close> (src/src/App.jsx)\<close>

text \<open>
  JavaScript numbers are taken as exact reals, scene identifiers are the strings the
  source compares with \<open>===\<close>. The four \<open>useState\<close> cells and the \<open>useRef\<close> cell of
  \<open>App\<close> are fields of one record, next to the part of the browser the handlers act
  on: the window's scroll offset and the timer queue of the event loop, read on a
  logical millisecond clock (a timer runs when the clock reaches its due time).
\<close>

text \<open>
  The arrow functions handed to \<open>setTimeout\<close>, one constructor per closure, each with
  the variable it captures:
  \<^item> \<open>WarpFire\<close> is \<open>() => handleJump('blackhole')\<close> (line 152);
  \<^item> \<open>JumpFlash n\<close> is the outer closure of \<open>handleJump n\<close> (lines 139-147);
  \<^item> \<open>JumpSwap n\<close> is the nested closure (lines 141-146);
  \<^item> \<open>FlashOff\<close> is \<open>() => setFlash(false)\<close> (line 145).
\<close>

datatype callback = WarpFire | JumpFlash string | JumpSwap string | FlashOff

record timer =
  tid :: nat
  due :: nat
  action :: callback

record app =
  speed :: real
  currentScene :: string
  isJumping :: bool
  flash :: bool
  timerRef :: "nat option"
  scroll :: "int \<times> int"
  now :: nat
  nextId :: nat
  timers :: "timer list"

text \<open>Lines 131-135: the initial values of the hooks; nothing is scheduled yet.\<close>

definition initialApp :: app where
  "initialApp =
     \<lparr>speed = 1, currentScene = ''travel'', isJumping = False, flash = False,
      timerRef = None, scroll = (0, 0), now = 0, nextId = 1, timers = []\<rparr>"

text \<open>
  \<open>setTimeout(f, d)\<close> queues \<open>f\<close> for \<open>d\<close> milliseconds from now and returns a fresh
  handle; \<open>clearTimeout(h)\<close> removes the timer with that handle, and does nothing for
  \<open>null\<close> or for a handle that is no longer queued.
\<close>

definition setTimeout :: "callback \<Rightarrow> nat \<Rightarrow> app \<Rightarrow> nat \<times> app" where
  "setTimeout f d s =
     (nextId s,
      s\<lparr>timers := timers s @ [\<lparr>tid = nextId s, due = now s + d, action = f\<rparr>],
        nextId := nextId s + 1\<rparr>)"

definition clearTimeout :: "nat option \<Rightarrow> app \<Rightarrow> app" where
  "clearTimeout h s =
     (case h of
        None \<Rightarrow> s
      | Some i \<Rightarrow> s\<lparr>timers := filter (\<lambda>t. tid t \<noteq> i) (timers s)\<rparr>)"

text \<open>Lines 137-148, the synchronous part of \<open>handleJump\<close>.\<close>

definition handleJump :: "string \<Rightarrow> app \<Rightarrow> app" where
  "handleJump nextScene s =
     snd (setTimeout (JumpFlash nextScene) 1000 (s\<lparr>isJumping := True, speed := 12\<rparr>))"

text \<open>Lines 150-153.\<close>

definition startWarp :: "app \<Rightarrow> app" where
  "startWarp s =
     (let (h, s') = setTimeout WarpFire 5000 (s\<lparr>speed := 8\<rparr>)
      in s'\<lparr>timerRef := Some h\<rparr>)"

text \<open>Line 226, the \<open>onMouseUp\<close> handler of the charge button.\<close>

definition releaseWarp :: "app \<Rightarrow> app" where
  "releaseWarp s = (clearTimeout (timerRef s) s)\<lparr>speed := 1\<rparr>"

text \<open>What each queued closure does when the event loop runs it.\<close>

fun runCallback :: "callback \<Rightarrow> app \<Rightarrow> app" where
  "runCallback WarpFire s = handleJump ''blackhole'' s"
| "runCallback (JumpFlash nextScene) s =
     snd (setTimeout (JumpSwap nextScene) 200 (s\<lparr>flash := True\<rparr>))"
| "runCallback (JumpSwap nextScene) s =
     snd (setTimeout FlashOff 800
       (s\<lparr>currentScene := nextScene, isJumping := False,
          speed := (if nextScene = ''travel'' then 1 else 0.2),
          scroll := (0, 0)\<rparr>))"
| "runCallback FlashOff s = s\<lparr>flash := False\<rparr>"

section \<open>The event loop\<close>

text \<open>
  Timers run in the order of their due times, the one queued first going first among
  equals; the clock stands at the due time of the timer being run.
\<close>

fun earliest :: "timer list \<Rightarrow> timer option" where
  "earliest [] = None"
| "earliest (t # ts) =
     (case earliest ts of
        None \<Rightarrow> Some t
      | Some u \<Rightarrow> if due t \<le> due u then Some t else Some u)"

definition nextDue :: "nat \<Rightarrow> timer list \<Rightarrow> timer option" where
  "nextDue limit ts = earliest (filter (\<lambda>t. due t \<le> limit) ts)"

definition fire :: "timer \<Rightarrow> app \<Rightarrow> app" where
  "fire t s =
     runCallback (action t)
       (s\<lparr>now := due t, timers := filter (\<lambda>u. tid u \<noteq> tid t) (timers s)\<rparr>)"

fun rank :: "callback \<Rightarrow> nat" where
  "rank WarpFire = 4"
| "rank (JumpFlash n) = 3"
| "rank (JumpSwap n) = 2"
| "rank FlashOff = 1"

definition pendingWork :: "app \<Rightarrow> nat" where
  "pendingWork s = sum_list (map (\<lambda>t. rank (action t)) (timers s))"

lemma earliest_in: "earliest ts = Some t \<Longrightarrow> t \<in> set ts"
  by (induction ts arbitrary: t) (auto split: option.splits if_splits)

lemma nextDue_in: "nextDue limit ts = Some t \<Longrightarrow> t \<in> set ts \<and> due t \<le> limit"
  unfolding nextDue_def by (drule earliest_in) simp

lemma rank_pos: "0 < rank f"
  by (cases f) simp_all

lemma filter_work_le:
  "sum_list (map (\<lambda>u. rank (action u)) (filter P ts))
     \<le> sum_list (map (\<lambda>u. rank (action u)) ts)"
  by (induction ts) auto

lemma drop_tid_less:
  "t \<in> set ts \<Longrightarrow>
   sum_list (map (\<lambda>u. rank (action u)) (filter (\<lambda>u. tid u \<noteq> tid t) ts)) + rank (action t)
     \<le> sum_list (map (\<lambda>u. rank (action u)) ts)"
proof (induction ts)
  case Nil
  then show ?case by simp
next
  case (Cons a ts)
  show ?case
  proof (cases "tid a = tid t")
    case True
    have "rank (action t) \<le> rank (action a) \<or> t \<in> set ts"
      using Cons.prems by auto
    then show ?thesis
    proof
      assume "rank (action t) \<le> rank (action a)"
      then show ?thesis
        using True filter_work_le [of "\<lambda>u. tid u \<noteq> tid t" ts] by simp
    next
      assume "t \<in> set ts"
      then show ?thesis using True Cons.IH by simp
    qed
  next
    case False
    then have "t \<in> set ts" using Cons.prems by auto
    then show ?thesis using False Cons.IH by simp
  qed
qed

lemma runCallback_work:
  "pendingWork (runCallback f s) + 1 = pendingWork s + rank f"
  by (cases f) (simp_all add: pendingWork_def handleJump_def setTimeout_def)

lemma fire_work: "t \<in> set (timers s) \<Longrightarrow> pendingWork (fire t s) < pendingWork s"
proof -
  assume mem: "t \<in> set (timers s)"
  let ?s = "s\<lparr>now := due t, timers := filter (\<lambda>u. tid u \<noteq> tid t) (timers s)\<rparr>"
  have "pendingWork (fire t s) + 1 = pendingWork ?s + rank (action t)"
    using runCallback_work [of "action t" ?s] by (simp add: fire_def)
  moreover have "pendingWork ?s + rank (action t) \<le> pendingWork s"
    using drop_tid_less [OF mem] by (simp add: pendingWork_def)
  ultimately show ?thesis by linarith
qed

function advanceTo :: "nat \<Rightarrow> app \<Rightarrow> app" where
  "advanceTo limit s =
     (case nextDue limit (timers s) of
        None \<Rightarrow> s\<lparr>now := limit\<rparr>
      | Some t \<Rightarrow> advanceTo limit (fire t s))"
  by pat_completeness auto
termination
proof (relation "measure (\<lambda>(limit, s). pendingWork s)")
  show "wf (measure (\<lambda>(limit, s). pendingWork s))" by simp
next
  fix limit :: nat and s :: app and t :: timer
  assume "nextDue limit (timers s) = Some t"
  then have "t \<in> set (timers s)" by (simp add: nextDue_in)
  then show "((limit, fire t s), (limit, s)) \<in> measure (\<lambda>(limit, s). pendingWork s)"
    by (simp add: fire_work)
qed

declare advanceTo.simps [simp del]

definition elapse :: "nat \<Rightarrow> app \<Rightarrow> app" where
  "elapse dt s = advanceTo (now s + dt) s"

text \<open>
  The user's events. The charge button is rendered in the travel scene only (lines
  223-228), and each other scene renders one button that jumps to a fixed next scene
  (lines 238, 258, 274, 291, 322); an event on a button that is not rendered cannot
  happen and leaves the state as it is.
\<close>

datatype event = MouseDown | MouseUp | Navigate | Elapse nat

definition navTarget :: "string \<Rightarrow> string option" where
  "navTarget scene =
     (if scene = ''blackhole'' then Some ''wormhole''
      else if scene = ''wormhole'' then Some ''earth''
      else if scene = ''earth'' then Some ''projects''
      else if scene = ''projects'' then Some ''contact''
      else if scene = ''contact'' then Some ''travel''
      else None)"

fun dispatch :: "event \<Rightarrow> app \<Rightarrow> app" where
  "dispatch MouseDown s = (if currentScene s = ''travel'' then startWarp s else s)"
| "dispatch MouseUp s = (if currentScene s = ''travel'' then releaseWarp s else s)"
| "dispatch Navigate s =
     (case navTarget (currentScene s) of
        None \<Rightarrow> s
      | Some nextScene \<Rightarrow> handleJump nextScene s)"
| "dispatch (Elapse dt) s = elapse dt s"

definition run :: "event list \<Rightarrow> app \<Rightarrow> app" where
  "run evs s = fold dispatch evs s"

section \<open>What the settled states have in common\<close>

text \<open>
  Predicates for the invariant of the state machine: the values \<open>speed\<close> is ever assigned,
  a transition being in flight (anything queued besides the fade-out of the flash), and
  the two together with the freshness of timer handles.
\<close>

definition speedOk :: "app \<Rightarrow> bool" where
  "speedOk s \<longleftrightarrow> speed s \<in> {1, 8, 12, 0.2}"

definition inFlight :: "app \<Rightarrow> bool" where
  "inFlight s \<longleftrightarrow> (\<exists>u \<in> set (timers s). action u \<noteq> FlashOff)"

definition sound :: "app \<Rightarrow> bool" where
  "sound s \<longleftrightarrow>
     speedOk s \<and> (\<forall>u \<in> set (timers s). tid u < nextId s) \<and> distinct (map tid (timers s)) \<and>
     (inFlight s \<or> speed s = (if currentScene s = ''travel'' then 1 else 0.2))"

section \<open>The camera controller and the rendered properties\<close>

text \<open>
  The fields of the three.js camera that \<open>CameraManager\<close> reads and writes.
  \<open>updateProjectionMatrix\<close> recomputes the projection from \<open>fov\<close> and has no state of
  its own here.
\<close>

record camera =
  posX :: real
  posY :: real
  posZ :: real
  fov :: real

text \<open>Line 202: the camera as mounted, 90 degrees on a narrow window and 75 otherwise.\<close>

definition PerspectiveCamera :: "int \<Rightarrow> camera" where
  "PerspectiveCamera innerWidth =
     \<lparr>posX = 0, posY = 0, posZ = 10, fov = (if innerWidth < 768 then 90 else 75)\<rparr>"

text \<open>
  Modelled from the spec: \<open>THREE.MathUtils.lerp\<close> is a function of the three.js library
  and is not under src/. Section 4.2 of the specification has the current value
  "linearly interpolated 5% of the remaining distance toward the target": the value moves
  by the fraction \<open>t\<close> of the distance that remains.
\<close>

definition lerp :: "real \<Rightarrow> real \<Rightarrow> real \<Rightarrow> real" where
  "lerp x y t = x + (y - x) * t"

text \<open>
  Lines 8-19, the callback \<open>CameraManager\<close> hands to \<open>useFrame\<close>. The two calls of
  \<open>Math.random()\<close> are the inputs \<open>r1\<close> and \<open>r2\<close>, each a number from 0 (included) to 1
  (excluded); they are drawn only when the jitter branch is taken. The position deltas
  are settled on this definition; the field of view the code computes is an IEEE double,
  whose rounding from frame to frame the exact reals used here do not follow.
\<close>

definition CameraManager :: "real \<Rightarrow> bool \<Rightarrow> real \<Rightarrow> real \<Rightarrow> camera \<Rightarrow> camera" where
  "CameraManager sp jumping r1 r2 cam =
     (let cam' =
        (if sp > 1 \<and> \<not> jumping
         then cam\<lparr>posX := posX cam + (r1 - 0.5) * (sp * 0.015),
                  posY := posY cam + (r2 - 0.5) * (sp * 0.015)\<rparr>
         else cam);
        targetFOV = (if jumping then 140 else 75)
      in cam'\<lparr>fov := lerp (fov cam') targetFOV 0.05\<rparr>)"

text \<open>Lines 214-218, the props handed to \<open>OrbitControls\<close>.\<close>

record orbitProps =
  enableZoom :: bool
  enableRotate :: bool
  enablePan :: bool

text \<open>
  Line 76 (and lines 31, 39, 49, 65, 202): the narrow-window test the models are scaled
  by.
\<close>

definition isMobile :: "int \<Rightarrow> bool" where
  "isMobile innerWidth \<longleftrightarrow> innerWidth < 768"

definition OrbitControls :: "string \<Rightarrow> int \<Rightarrow> orbitProps" where
  "OrbitControls scene innerWidth =
     \<lparr>enableZoom = (scene = ''contact''),
      enableRotate = (scene \<noteq> ''travel'' \<and> innerWidth > 768),
      enablePan = False\<rparr>"

text \<open>Lines 156-159, the inline style of the root container.\<close>

record style =
  width :: string
  height :: string
  background :: string
  position :: string
  overflowY :: string
  color :: string
  fontFamily :: string

definition rootStyle :: "string \<Rightarrow> style" where
  \<open>rootStyle scene =
     \<lparr>width = ''100vw'', height = ''100vh'', background = ''#000'', position = ''relative'',
      overflowY = (if scene = ''travel'' then ''hidden'' else ''auto''),
      color = ''white'', fontFamily = ''"Inter", sans-serif''\<rparr>\<close>

section \<open>Initial state\<close>

text \<open>
  C9. At application start, before any user event, the state is exactly
  \<open>currentScene = 'travel'\<close>, \<open>speed = 1\<close>, \<open>isJumping = false\<close>, \<open>flash = false\<close>, the
  timer handle is null and no timer is pending.
\<close>

theorem initial_state:
  "currentScene initialApp = ''travel'' \<and> speed initialApp = 1 \<and>
   isJumping initialApp = False \<and> flash initialApp = False \<and>
   timerRef initialApp = None \<and> timers initialApp = []"
  by (simp add: initialApp_def)

section \<open>The jump sequence\<close>

lemmas loop_defs = elapse_def advanceTo.simps handleJump_def setTimeout_def nextDue_def fire_def
lemmas user_defs = run_def startWarp_def releaseWarp_def clearTimeout_def

lemma jump_pending:
  "timers s = [] \<Longrightarrow> t < 1000 \<Longrightarrow>
   elapse t (handleJump n s) =
     s\<lparr>isJumping := True, speed := 12, now := now s + t, nextId := nextId s + 1,
       timers := [\<lparr>tid = nextId s, due = now s + 1000, action = JumpFlash n\<rparr>]\<rparr>"
  by (simp add: loop_defs)

lemma jump_flashed:
  "timers s = [] \<Longrightarrow> 1000 \<le> t \<Longrightarrow> t < 1200 \<Longrightarrow>
   elapse t (handleJump n s) =
     s\<lparr>isJumping := True, speed := 12, flash := True, now := now s + t,
       nextId := nextId s + 2,
       timers := [\<lparr>tid = nextId s + 1, due = now s + 1200, action = JumpSwap n\<rparr>]\<rparr>"
  by (simp add: loop_defs)

lemma jump_swapped:
  "timers s = [] \<Longrightarrow> 1200 \<le> t \<Longrightarrow> t < 2000 \<Longrightarrow>
   elapse t (handleJump n s) =
     s\<lparr>isJumping := False, speed := (if n = ''travel'' then 1 else 0.2), flash := True,
       currentScene := n, scroll := (0, 0), now := now s + t, nextId := nextId s + 3,
       timers := [\<lparr>tid = nextId s + 2, due = now s + 2000, action = FlashOff\<rparr>]\<rparr>"
  by (simp add: loop_defs)

lemma jump_settled:
  "timers s = [] \<Longrightarrow> 2000 \<le> t \<Longrightarrow>
   elapse t (handleJump n s) =
     s\<lparr>isJumping := False, speed := (if n = ''travel'' then 1 else 0.2), flash := False,
       currentScene := n, scroll := (0, 0), now := now s + t, nextId := nextId s + 3,
       timers := []\<rparr>"
  by (simp add: loop_defs)

text \<open>
  C1. A jump to any target scene, started when nothing else is queued and followed by no
  user event: at once \<open>isJumping\<close> is true and \<open>speed\<close> is 12; until 1000 ms nothing
  else changes; from 1000 ms \<open>flash\<close> is true; from 1200 ms \<open>currentScene\<close> is the
  target, \<open>isJumping\<close> is false, \<open>speed\<close> is 1 for \<open>'travel'\<close> and 0.2 otherwise and
  the window is scrolled to the top; from 2000 ms \<open>flash\<close> is false and nothing is
  left queued.
\<close>

theorem handleJump_sequence:
  assumes idle: "timers s = []"
  shows "isJumping (handleJump n s) \<and> speed (handleJump n s) = 12 \<and>
    (\<forall>t<1000. flash (elapse t (handleJump n s)) = flash s \<and>
       currentScene (elapse t (handleJump n s)) = currentScene s \<and>
       isJumping (elapse t (handleJump n s)) \<and> speed (elapse t (handleJump n s)) = 12) \<and>
    (\<forall>t. 1000 \<le> t \<and> t < 1200 \<longrightarrow>
       flash (elapse t (handleJump n s)) \<and>
       currentScene (elapse t (handleJump n s)) = currentScene s \<and>
       isJumping (elapse t (handleJump n s)) \<and> speed (elapse t (handleJump n s)) = 12) \<and>
    (\<forall>t. 1200 \<le> t \<and> t < 2000 \<longrightarrow>
       flash (elapse t (handleJump n s)) \<and>
       currentScene (elapse t (handleJump n s)) = n \<and>
       \<not> isJumping (elapse t (handleJump n s)) \<and>
       speed (elapse t (handleJump n s)) = (if n = ''travel'' then 1 else 0.2) \<and>
       scroll (elapse t (handleJump n s)) = (0, 0)) \<and>
    (\<forall>t\<ge>2000.
       \<not> flash (elapse t (handleJump n s)) \<and>
       currentScene (elapse t (handleJump n s)) = n \<and>
       \<not> isJumping (elapse t (handleJump n s)) \<and>
       speed (elapse t (handleJump n s)) = (if n = ''travel'' then 1 else 0.2) \<and>
       scroll (elapse t (handleJump n s)) = (0, 0) \<and>
       timers (elapse t (handleJump n s)) = [])"
proof -
  have start: "isJumping (handleJump n s) \<and> speed (handleJump n s) = 12"
    by (simp add: handleJump_def setTimeout_def)
  have a: "\<forall>t<1000. flash (elapse t (handleJump n s)) = flash s \<and>
       currentScene (elapse t (handleJump n s)) = currentScene s \<and>
       isJumping (elapse t (handleJump n s)) \<and> speed (elapse t (handleJump n s)) = 12"
    by (simp add: jump_pending [OF idle])
  have b: "\<forall>t. 1000 \<le> t \<and> t < 1200 \<longrightarrow>
       flash (elapse t (handleJump n s)) \<and>
       currentScene (elapse t (handleJump n s)) = currentScene s \<and>
       isJumping (elapse t (handleJump n s)) \<and> speed (elapse t (handleJump n s)) = 12"
    by (simp add: jump_flashed [OF idle])
  have c: "\<forall>t. 1200 \<le> t \<and> t < 2000 \<longrightarrow>
       flash (elapse t (handleJump n s)) \<and>
       currentScene (elapse t (handleJump n s)) = n \<and>
       \<not> isJumping (elapse t (handleJump n s)) \<and>
       speed (elapse t (handleJump n s)) = (if n = ''travel'' then 1 else 0.2) \<and>
       scroll (elapse t (handleJump n s)) = (0, 0)"
    by (simp add: jump_swapped [OF idle])
  have d: "\<forall>t\<ge>2000.
       \<not> flash (elapse t (handleJump n s)) \<and>
       currentScene (elapse t (handleJump n s)) = n \<and>
       \<not> isJumping (elapse t (handleJump n s)) \<and>
       speed (elapse t (handleJump n s)) = (if n = ''travel'' then 1 else 0.2) \<and>
       scroll (elapse t (handleJump n s)) = (0, 0) \<and>
       timers (elapse t (handleJump n s)) = []"
    by (simp add: jump_settled [OF idle])
  from start a b c d show ?thesis by blast
qed

theorem handleJump_sequence_witness:
  "timers (run [MouseDown, Elapse 7000] initialApp) = [] \<and>
   currentScene (run [MouseDown, Elapse 7000] initialApp) = ''blackhole'' \<and>
   isJumping (handleJump ''wormhole'' (run [MouseDown, Elapse 7000] initialApp)) \<and>
   \<not> flash (elapse 999 (handleJump ''wormhole'' (run [MouseDown, Elapse 7000] initialApp))) \<and>
   flash (elapse 1000 (handleJump ''wormhole'' (run [MouseDown, Elapse 7000] initialApp))) \<and>
   currentScene (elapse 1199 (handleJump ''wormhole'' (run [MouseDown, Elapse 7000] initialApp)))
     = ''blackhole'' \<and>
   currentScene (elapse 1200 (handleJump ''wormhole'' (run [MouseDown, Elapse 7000] initialApp)))
     = ''wormhole'' \<and>
   speed (elapse 1200 (handleJump ''wormhole'' (run [MouseDown, Elapse 7000] initialApp)))
     = 0.2 \<and>
   flash (elapse 1999 (handleJump ''wormhole'' (run [MouseDown, Elapse 7000] initialApp))) \<and>
   \<not> flash (elapse 2000 (handleJump ''wormhole'' (run [MouseDown, Elapse 7000] initialApp)))"
proof -
  have idle: "timers (run [MouseDown, Elapse 7000] initialApp) = []"
    by (simp add: initialApp_def user_defs loop_defs)
  have rest: "currentScene (run [MouseDown, Elapse 7000] initialApp) = ''blackhole'' \<and>
      \<not> flash (run [MouseDown, Elapse 7000] initialApp)"
    by (simp add: initialApp_def user_defs loop_defs)
  show ?thesis
    using idle rest
      handleJump_sequence [OF idle, of "''wormhole''"]
    by simp
qed

section \<open>Charging\<close>

lemma charge_held:
  "currentScene s = ''travel'' \<Longrightarrow> timers s = [] \<Longrightarrow> t < 5000 \<Longrightarrow>
   run [MouseDown, Elapse t] s =
     s\<lparr>speed := 8, timerRef := Some (nextId s), now := now s + t, nextId := nextId s + 1,
       timers := [\<lparr>tid = nextId s, due = now s + 5000, action = WarpFire\<rparr>]\<rparr>"
  by (simp add: user_defs loop_defs)

lemma charge_fired:
  "currentScene s = ''travel'' \<Longrightarrow> timers s = [] \<Longrightarrow> 5000 \<le> t \<Longrightarrow> t < 6000 \<Longrightarrow>
   run [MouseDown, Elapse t] s =
     s\<lparr>speed := 12, isJumping := True, timerRef := Some (nextId s), now := now s + t,
       nextId := nextId s + 2,
       timers := [\<lparr>tid = nextId s + 1, due = now s + 6000, action = JumpFlash ''blackhole''\<rparr>]\<rparr>"
  by (simp add: user_defs loop_defs)

lemma charge_flashed:
  "currentScene s = ''travel'' \<Longrightarrow> timers s = [] \<Longrightarrow> 6000 \<le> t \<Longrightarrow> t < 6200 \<Longrightarrow>
   run [MouseDown, Elapse t] s =
     s\<lparr>speed := 12, isJumping := True, flash := True, timerRef := Some (nextId s),
       now := now s + t, nextId := nextId s + 3,
       timers := [\<lparr>tid = nextId s + 2, due = now s + 6200, action = JumpSwap ''blackhole''\<rparr>]\<rparr>"
  by (simp add: user_defs loop_defs)

lemma charge_swapped:
  "currentScene s = ''travel'' \<Longrightarrow> timers s = [] \<Longrightarrow> 6200 \<le> t \<Longrightarrow> t < 7000 \<Longrightarrow>
   run [MouseDown, Elapse t] s =
     s\<lparr>speed := 0.2, currentScene := ''blackhole'', isJumping := False, flash := True,
       timerRef := Some (nextId s), scroll := (0, 0), now := now s + t,
       nextId := nextId s + 4,
       timers := [\<lparr>tid = nextId s + 3, due = now s + 7000, action = FlashOff\<rparr>]\<rparr>"
  by (simp add: user_defs loop_defs)

lemma charge_settled:
  "currentScene s = ''travel'' \<Longrightarrow> timers s = [] \<Longrightarrow> 7000 \<le> t \<Longrightarrow>
   run [MouseDown, Elapse t] s =
     s\<lparr>speed := 0.2, currentScene := ''blackhole'', isJumping := False, flash := False,
       timerRef := Some (nextId s), scroll := (0, 0), now := now s + t,
       nextId := nextId s + 4, timers := []\<rparr>"
  by (simp add: user_defs loop_defs)

text \<open>
  C2. From the travel scene with nothing queued, pressing the charge button sets \<open>speed\<close>
  to 8 and queues exactly one timer, due 5000 ms later and held in \<open>timerRef\<close>. If the
  button is never released the timer runs at 5000 ms and starts the jump (\<open>isJumping\<close>
  true, \<open>speed\<close> 12); from 6200 ms on \<open>currentScene\<close> is \<open>'blackhole'\<close> and \<open>speed\<close> is
  0.2, and from 7000 ms on the flash is off and nothing is queued.
\<close>

theorem charge_hold_jumps:
  assumes travel: "currentScene s = ''travel''" and idle: "timers s = []"
  shows "speed (run [MouseDown] s) = 8 \<and>
    timers (run [MouseDown] s) = [\<lparr>tid = nextId s, due = now s + 5000, action = WarpFire\<rparr>] \<and>
    timerRef (run [MouseDown] s) = Some (nextId s) \<and>
    (\<forall>t<5000. speed (run [MouseDown, Elapse t] s) = 8 \<and>
       isJumping (run [MouseDown, Elapse t] s) = isJumping s \<and>
       currentScene (run [MouseDown, Elapse t] s) = ''travel'') \<and>
    isJumping (run [MouseDown, Elapse 5000] s) \<and>
    speed (run [MouseDown, Elapse 5000] s) = 12 \<and>
    timers (run [MouseDown, Elapse 5000] s) =
      [\<lparr>tid = nextId s + 1, due = now s + 6000, action = JumpFlash ''blackhole''\<rparr>] \<and>
    (\<forall>t\<ge>6200. currentScene (run [MouseDown, Elapse t] s) = ''blackhole'' \<and>
       speed (run [MouseDown, Elapse t] s) = 0.2 \<and>
       \<not> isJumping (run [MouseDown, Elapse t] s)) \<and>
    (\<forall>t\<ge>7000. \<not> flash (run [MouseDown, Elapse t] s) \<and>
       timers (run [MouseDown, Elapse t] s) = [])"
proof -
  have press: "speed (run [MouseDown] s) = 8 \<and>
    timers (run [MouseDown] s) = [\<lparr>tid = nextId s, due = now s + 5000, action = WarpFire\<rparr>] \<and>
    timerRef (run [MouseDown] s) = Some (nextId s)"
    using travel idle by (simp add: user_defs setTimeout_def)
  have held: "\<forall>t<5000. speed (run [MouseDown, Elapse t] s) = 8 \<and>
       isJumping (run [MouseDown, Elapse t] s) = isJumping s \<and>
       currentScene (run [MouseDown, Elapse t] s) = ''travel''"
    using travel by (simp add: charge_held [OF travel idle])
  have fired: "isJumping (run [MouseDown, Elapse 5000] s) \<and>
    speed (run [MouseDown, Elapse 5000] s) = 12 \<and>
    timers (run [MouseDown, Elapse 5000] s) =
      [\<lparr>tid = nextId s + 1, due = now s + 6000, action = JumpFlash ''blackhole''\<rparr>]"
    by (simp add: charge_fired [OF travel idle])
  have arrived: "currentScene (run [MouseDown, Elapse t] s) = ''blackhole'' \<and>
       speed (run [MouseDown, Elapse t] s) = 0.2 \<and>
       \<not> isJumping (run [MouseDown, Elapse t] s)" if "6200 \<le> t" for t
  proof (cases "t < 7000")
    case True
    with that show ?thesis by (simp add: charge_swapped [OF travel idle])
  next
    case False
    then show ?thesis by (simp add: charge_settled [OF travel idle])
  qed
  have settled: "\<forall>t\<ge>7000. \<not> flash (run [MouseDown, Elapse t] s) \<and>
       timers (run [MouseDown, Elapse t] s) = []"
    by (simp add: charge_settled [OF travel idle])
  from press held fired arrived settled show ?thesis by blast
qed

theorem charge_hold_jumps_witness:
  "currentScene initialApp = ''travel'' \<and> timers initialApp = [] \<and>
   speed (run [MouseDown] initialApp) = 8 \<and>
   timers (run [MouseDown] initialApp) = [\<lparr>tid = 1, due = 5000, action = WarpFire\<rparr>] \<and>
   speed (run [MouseDown, Elapse 4999] initialApp) = 8 \<and>
   isJumping (run [MouseDown, Elapse 5000] initialApp) \<and>
   currentScene (run [MouseDown, Elapse 6200] initialApp) = ''blackhole'' \<and>
   speed (run [MouseDown, Elapse 6200] initialApp) = 0.2 \<and>
   \<not> flash (run [MouseDown, Elapse 7000] initialApp)"
proof -
  have travel: "currentScene initialApp = ''travel''" and idle: "timers initialApp = []"
    by (simp_all add: initialApp_def)
  have ids: "nextId initialApp = 1" "now initialApp = 0"
    by (simp_all add: initialApp_def)
  show ?thesis
    using travel idle ids charge_hold_jumps [OF travel idle] by simp
qed

text \<open>
  C3. A charge started in the resting travel scene and released before 5000 ms: the
  release removes the queued timer, \<open>currentScene\<close> is unchanged, \<open>speed\<close> is 1,
  \<open>isJumping\<close> and \<open>flash\<close> stay false, and nothing happens afterwards however long the
  clock runs.
\<close>

theorem charge_release_cancels:
  assumes travel: "currentScene s = ''travel''" and idle: "timers s = []"
    and rest: "\<not> isJumping s" "\<not> flash s" and early: "t < 5000"
  shows "timers (run [MouseDown, Elapse t] s) =
      [\<lparr>tid = nextId s, due = now s + 5000, action = WarpFire\<rparr>] \<and>
    timers (run [MouseDown, Elapse t, MouseUp] s) = [] \<and>
    currentScene (run [MouseDown, Elapse t, MouseUp] s) = currentScene s \<and>
    speed (run [MouseDown, Elapse t, MouseUp] s) = 1 \<and>
    \<not> isJumping (run [MouseDown, Elapse t, MouseUp] s) \<and>
    \<not> flash (run [MouseDown, Elapse t, MouseUp] s) \<and>
    run [MouseDown, Elapse t, MouseUp, Elapse dt] s =
      s\<lparr>speed := 1, timerRef := Some (nextId s), now := now s + t + dt,
        nextId := nextId s + 1\<rparr>"
proof -
  have up: "run [MouseDown, Elapse t, MouseUp] s =
      s\<lparr>speed := 1, timerRef := Some (nextId s), now := now s + t, nextId := nextId s + 1\<rparr>"
    using travel idle early by (simp add: user_defs loop_defs)
  have later: "run [MouseDown, Elapse t, MouseUp, Elapse dt] s =
      elapse dt (run [MouseDown, Elapse t, MouseUp] s)"
    by (simp add: run_def)
  show ?thesis
    using travel idle rest
    by (simp add: charge_held [OF travel idle early] later up elapse_def advanceTo.simps nextDue_def)
qed

theorem charge_release_cancels_witness:
  "currentScene initialApp = ''travel'' \<and> timers initialApp = [] \<and>
   \<not> isJumping initialApp \<and> \<not> flash initialApp \<and> (4999::nat) < 5000 \<and>
   timers (run [MouseDown, Elapse 4999] initialApp) =
     [\<lparr>tid = 1, due = 5000, action = WarpFire\<rparr>] \<and>
   timers (run [MouseDown, Elapse 4999, MouseUp] initialApp) = [] \<and>
   currentScene (run [MouseDown, Elapse 4999, MouseUp] initialApp) = ''travel'' \<and>
   speed (run [MouseDown, Elapse 4999, MouseUp] initialApp) = 1 \<and>
   currentScene (run [MouseDown, Elapse 4999, MouseUp, Elapse 10000] initialApp) = ''travel''"
proof -
  have travel: "currentScene initialApp = ''travel''" and idle: "timers initialApp = []"
    and rest: "\<not> isJumping initialApp" "\<not> flash initialApp"
    by (simp_all add: initialApp_def)
  have early: "(4999::nat) < 5000" by simp
  have ids: "nextId initialApp = 1" "now initialApp = 0"
    by (simp_all add: initialApp_def)
  show ?thesis
    using travel idle rest ids
      charge_release_cancels [OF travel idle rest early, of 10000]
    by simp
qed

text \<open>
  C4, as stated, fails: at 5000 ms the timer has run and \<open>speed\<close> is 12; releasing the
  button then sets \<open>speed\<close> to 1.
\<close>

theorem release_after_fire_counterexample:
  "speed (run [MouseDown, Elapse 5000] initialApp) = 12 \<and>
   speed (run [MouseDown, Elapse 5000, MouseUp] initialApp) = 1"
  by (simp add: initialApp_def user_defs loop_defs)

text \<open>
  C4, amended. Releasing the charge button after its timer has run, while the travel
  scene still shows the button (from 5000 ms until the swap at 6200 ms), cancels nothing
  and leaves \<open>currentScene\<close>, \<open>isJumping\<close>, \<open>flash\<close> and the queued step of the jump as
  they are, but sets \<open>speed\<close> to 1; the jump goes on undisturbed, and once the swap has
  run the state is the one reached without the release.
\<close>

theorem release_after_fire:
  assumes travel: "currentScene s = ''travel''" and idle: "timers s = []"
    and fired: "5000 \<le> t" and shown: "t < 6200"
  shows "run [MouseDown, Elapse t, MouseUp] s = (run [MouseDown, Elapse t] s)\<lparr>speed := 1\<rparr> \<and>
    speed (run [MouseDown, Elapse t] s) = 12 \<and>
    speed (run [MouseDown, Elapse t, MouseUp] s) = 1 \<and>
    isJumping (run [MouseDown, Elapse t, MouseUp] s) \<and>
    timers (run [MouseDown, Elapse t, MouseUp] s) = timers (run [MouseDown, Elapse t] s) \<and>
    timers (run [MouseDown, Elapse t] s) \<noteq> [] \<and>
    (6200 \<le> t + dt \<longrightarrow>
       run [MouseDown, Elapse t, MouseUp, Elapse dt] s = run [MouseDown, Elapse t, Elapse dt] s)"
proof (cases "t < 6000")
  case True
  have before: "run [MouseDown, Elapse t] s =
     s\<lparr>speed := 12, isJumping := True, timerRef := Some (nextId s), now := now s + t,
       nextId := nextId s + 2,
       timers := [\<lparr>tid = nextId s + 1, due = now s + 6000, action = JumpFlash ''blackhole''\<rparr>]\<rparr>"
    using charge_fired [OF travel idle fired True] .
  have split: "run [MouseDown, Elapse t, MouseUp] s = dispatch MouseUp (run [MouseDown, Elapse t] s)"
    "run [MouseDown, Elapse t, MouseUp, Elapse dt] s =
       elapse dt (dispatch MouseUp (run [MouseDown, Elapse t] s))"
    "run [MouseDown, Elapse t, Elapse dt] s = elapse dt (run [MouseDown, Elapse t] s)"
    by (simp_all add: run_def)
  show ?thesis
    unfolding split before using travel True fired
    by (simp add: releaseWarp_def clearTimeout_def loop_defs)
next
  case False
  then have late: "6000 \<le> t" by simp
  have before: "run [MouseDown, Elapse t] s =
     s\<lparr>speed := 12, isJumping := True, flash := True, timerRef := Some (nextId s),
       now := now s + t, nextId := nextId s + 3,
       timers := [\<lparr>tid = nextId s + 2, due = now s + 6200, action = JumpSwap ''blackhole''\<rparr>]\<rparr>"
    using charge_flashed [OF travel idle late shown] .
  have split: "run [MouseDown, Elapse t, MouseUp] s = dispatch MouseUp (run [MouseDown, Elapse t] s)"
    "run [MouseDown, Elapse t, MouseUp, Elapse dt] s =
       elapse dt (dispatch MouseUp (run [MouseDown, Elapse t] s))"
    "run [MouseDown, Elapse t, Elapse dt] s = elapse dt (run [MouseDown, Elapse t] s)"
    by (simp_all add: run_def)
  show ?thesis
    unfolding split before using travel late shown
    by (simp add: releaseWarp_def clearTimeout_def loop_defs)
qed

theorem release_after_fire_witness:
  "currentScene initialApp = ''travel'' \<and> timers initialApp = [] \<and>
   (5000::nat) \<le> 5500 \<and> (5500::nat) < 6200 \<and>
   speed (run [MouseDown, Elapse 5500] initialApp) = 12 \<and>
   speed (run [MouseDown, Elapse 5500, MouseUp] initialApp) = 1 \<and>
   isJumping (run [MouseDown, Elapse 5500, MouseUp] initialApp) \<and>
   currentScene (run [MouseDown, Elapse 5500, MouseUp, Elapse 700] initialApp) = ''blackhole'' \<and>
   speed (run [MouseDown, Elapse 5500, MouseUp, Elapse 700] initialApp) = 0.2"
proof -
  have travel: "currentScene initialApp = ''travel''" and idle: "timers initialApp = []"
    by (simp_all add: initialApp_def)
  have fired: "(5000::nat) \<le> 5500" and shown: "(5500::nat) < 6200"
    by simp_all
  have plain: "currentScene (run [MouseDown, Elapse 5500, Elapse 700] initialApp) = ''blackhole'' \<and>
      speed (run [MouseDown, Elapse 5500, Elapse 700] initialApp) = 0.2"
    by (simp add: initialApp_def user_defs loop_defs)
  have before: "isJumping (run [MouseDown, Elapse 5500] initialApp)"
    by (simp add: initialApp_def user_defs loop_defs)
  show ?thesis
    using travel idle plain before release_after_fire [OF travel idle fired shown, of 700]
    by simp
qed

section \<open>The invariant of the state machine\<close>

lemma sound_initial: "sound initialApp"
  by (simp add: sound_def speedOk_def inFlight_def initialApp_def)

lemma sound_handleJump: "sound s \<Longrightarrow> sound (handleJump n s)"
  by (auto simp: sound_def speedOk_def inFlight_def handleJump_def setTimeout_def)

lemma sound_startWarp: "sound s \<Longrightarrow> sound (startWarp s)"
  by (auto simp: sound_def speedOk_def inFlight_def startWarp_def setTimeout_def)

lemma sound_releaseWarp: "sound s \<Longrightarrow> currentScene s = ''travel'' \<Longrightarrow> sound (releaseWarp s)"
  by (auto simp: sound_def speedOk_def inFlight_def releaseWarp_def clearTimeout_def
      distinct_map_filter split: option.splits)

lemma sound_clock: "sound s \<Longrightarrow> sound (s\<lparr>now := t\<rparr>)"
  by (simp add: sound_def speedOk_def inFlight_def)

lemma other_timer_kept:
  assumes "distinct (map tid ts)" "u \<in> set ts" "v \<in> set ts" "action v \<noteq> action u"
  shows "v \<in> set (filter (\<lambda>w. tid w \<noteq> tid u) ts)"
proof -
  have "inj_on tid (set ts)" using assms(1) by (simp add: distinct_map)
  moreover have "v \<noteq> u" using assms(4) by auto
  ultimately have "tid v \<noteq> tid u" using assms(2,3) by (auto dest: inj_onD)
  then show ?thesis using assms(3) by simp
qed

lemma sound_dequeue:
  assumes ok: "sound s" and mem: "u \<in> set (timers s)"
  shows "speedOk (s\<lparr>now := due u, timers := filter (\<lambda>w. tid w \<noteq> tid u) (timers s)\<rparr>)"
    and "\<forall>v \<in> set (filter (\<lambda>w. tid w \<noteq> tid u) (timers s)). tid v < nextId s"
    and "distinct (map tid (filter (\<lambda>w. tid w \<noteq> tid u) (timers s)))"
    and "action u = FlashOff \<Longrightarrow> inFlight s \<Longrightarrow>
         \<exists>v \<in> set (filter (\<lambda>w. tid w \<noteq> tid u) (timers s)). action v \<noteq> FlashOff"
proof -
  show "speedOk (s\<lparr>now := due u, timers := filter (\<lambda>w. tid w \<noteq> tid u) (timers s)\<rparr>)"
    using ok by (simp add: sound_def speedOk_def)
  show "\<forall>v \<in> set (filter (\<lambda>w. tid w \<noteq> tid u) (timers s)). tid v < nextId s"
    using ok by (simp add: sound_def)
  show "distinct (map tid (filter (\<lambda>w. tid w \<noteq> tid u) (timers s)))"
    using ok by (simp add: sound_def distinct_map_filter)
  show "\<exists>v \<in> set (filter (\<lambda>w. tid w \<noteq> tid u) (timers s)). action v \<noteq> FlashOff"
    if off: "action u = FlashOff" and fl: "inFlight s"
  proof -
    from fl obtain v where v: "v \<in> set (timers s)" "action v \<noteq> FlashOff"
      by (auto simp: inFlight_def)
    have "distinct (map tid (timers s))" using ok by (simp add: sound_def)
    then have "v \<in> set (filter (\<lambda>w. tid w \<noteq> tid u) (timers s))"
      using other_timer_kept [of "timers s" u v] mem v off by simp
    then show ?thesis using v(2) by blast
  qed
qed

lemma sound_fire:
  assumes ok: "sound s" and mem: "u \<in> set (timers s)"
  shows "sound (fire u s)"
proof -
  let ?ts = "filter (\<lambda>w. tid w \<noteq> tid u) (timers s)"
  note dq = sound_dequeue [OF ok mem]
  have sp: "speed s \<in> {1, 8, 12, 0.2}" using ok by (simp add: sound_def speedOk_def)
  have fresh: "nextId s \<notin> tid ` set ?ts" using dq(2) by auto
  have ids: "\<forall>v \<in> set ?ts. tid v < Suc (nextId s)" using dq(2) by auto
  show ?thesis
  proof (cases "action u")
    case WarpFire
    then show ?thesis using dq(3) fresh ids
      by (simp add: fire_def sound_def speedOk_def inFlight_def handleJump_def setTimeout_def)
  next
    case (JumpFlash n)
    then show ?thesis using dq(3) fresh ids sp
      by (simp add: fire_def sound_def speedOk_def inFlight_def setTimeout_def)
  next
    case (JumpSwap n)
    then show ?thesis using dq(3) fresh ids
      by (simp add: fire_def sound_def speedOk_def inFlight_def setTimeout_def)
  next
    case FlashOff
    have rest: "inFlight s \<or> speed s = (if currentScene s = ''travel'' then 1 else 0.2)"
      using ok by (simp add: sound_def)
    then show ?thesis
    proof
      assume "inFlight s"
      then have "\<exists>v \<in> set ?ts. action v \<noteq> FlashOff" using dq(4) FlashOff by simp
      then show ?thesis using FlashOff dq(2,3) sp
        by (simp add: fire_def sound_def speedOk_def inFlight_def)
    next
      assume "speed s = (if currentScene s = ''travel'' then 1 else 0.2)"
      then show ?thesis using FlashOff dq(2,3) sp
        by (simp add: fire_def sound_def speedOk_def inFlight_def)
    qed
  qed
qed

lemma sound_advanceTo: "sound s \<Longrightarrow> sound (advanceTo limit s)"
proof (induction limit s rule: advanceTo.induct)
  case (1 limit s)
  show ?case
  proof (cases "nextDue limit (timers s)")
    case None
    then show ?thesis using "1.prems" by (simp add: advanceTo.simps [of limit s] sound_clock)
  next
    case (Some u)
    then have "u \<in> set (timers s)" by (simp add: nextDue_in)
    then have "sound (fire u s)" using "1.prems" by (rule sound_fire [rotated])
    then show ?thesis using "1.IH" [OF Some] Some by (simp add: advanceTo.simps [of limit s])
  qed
qed

lemma sound_dispatch: "sound s \<Longrightarrow> sound (dispatch e s)"
  by (cases e)
    (simp_all add: sound_startWarp sound_releaseWarp sound_handleJump sound_advanceTo
      elapse_def split: option.splits)

lemma sound_run: "sound s \<Longrightarrow> sound (run evs s)"
  unfolding run_def by (induction evs arbitrary: s) (simp_all add: sound_dispatch)

text \<open>
  C7. In every state reached from the initial one by any sequence of presses, releases,
  clicks on the scene buttons and passages of time, \<open>speed\<close> is one of 1, 8, 12 and 0.2,
  so never negative. The swap that completes a transition sets \<open>speed\<close> to the resting
  value of the scene it arrives in (1 for \<open>'travel'\<close>, 0.2 otherwise), and in every
  reached state with no transition in flight \<open>speed\<close> is the resting value of the current
  scene.
\<close>

theorem speed_invariant:
  "0 \<le> speed (run evs initialApp) \<and>
   speed (run evs initialApp) \<in> {1, 8, 12, 0.2} \<and>
   ((\<forall>u \<in> set (timers (run evs initialApp)). action u = FlashOff) \<longrightarrow>
      speed (run evs initialApp) = (if currentScene (run evs initialApp) = ''travel'' then 1 else 0.2)) \<and>
   currentScene (runCallback (JumpSwap n) s) = n \<and>
   speed (runCallback (JumpSwap n) s) = (if n = ''travel'' then 1 else 0.2)"
proof -
  have ok: "sound (run evs initialApp)"
    by (simp add: sound_run sound_initial)
  then have vals: "speed (run evs initialApp) \<in> {1, 8, 12, 0.2}"
    by (simp add: sound_def speedOk_def)
  then have nonneg: "0 \<le> speed (run evs initialApp)" by auto
  have settled: "(\<forall>u \<in> set (timers (run evs initialApp)). action u = FlashOff) \<longrightarrow>
      speed (run evs initialApp) = (if currentScene (run evs initialApp) = ''travel'' then 1 else 0.2)"
    using ok unfolding sound_def inFlight_def by blast
  have swap: "currentScene (runCallback (JumpSwap n) s) = n \<and>
      speed (runCallback (JumpSwap n) s) = (if n = ''travel'' then 1 else 0.2)"
    by (simp add: setTimeout_def)
  from nonneg vals settled swap show ?thesis by blast
qed

theorem speed_invariant_witness:
  "timers (run [MouseDown, Elapse 6200] initialApp) =
     [\<lparr>tid = 4, due = 7000, action = FlashOff\<rparr>] \<and>
   currentScene (run [MouseDown, Elapse 6200] initialApp) = ''blackhole'' \<and>
   speed (run [MouseDown, Elapse 6200] initialApp) = 0.2 \<and>
   speed (runCallback (JumpSwap ''travel'') initialApp) = 1"
proof -
  have queue: "timers (run [MouseDown, Elapse 6200] initialApp) =
      [\<lparr>tid = 4, due = 7000, action = FlashOff\<rparr>]"
    by (simp add: initialApp_def user_defs loop_defs)
  have scene: "currentScene (run [MouseDown, Elapse 6200] initialApp) = ''blackhole''"
    by (simp add: initialApp_def user_defs loop_defs)
  show ?thesis
    using queue scene speed_invariant [of "[MouseDown, Elapse 6200]" "''travel''" initialApp]
    by simp
qed

section \<open>The camera on each frame\<close>

text \<open>
  C5, as stated, fails: \<open>Math.random()\<close> may return 0, and then the delta is exactly
  \<open>-0.5 * speed * 0.015\<close>, which the open range excludes.
\<close>

theorem jitter_range_counterexample:
  "(0::real) \<le> 0 \<and> (0::real) < 1 \<and> (8::real) > 1 \<and>
   \<not> (- 0.5 <
      (posX (CameraManager 8 False 0 0 (PerspectiveCamera 1024))
         - posX (PerspectiveCamera 1024)) / (8 * 0.015))"
  by (simp add: CameraManager_def lerp_def PerspectiveCamera_def)

text \<open>
  C5, amended. On every frame the jitter is applied if and only if \<open>speed > 1\<close> and
  \<open>isJumping\<close> is false. When applied, X and Y each receive
  \<open>(r - 0.5) * speed * 0.015\<close> for a draw \<open>r\<close> of their own from \<open>Math.random()\<close>, so each
  delta lies in the half-open range from \<open>-0.5 * speed * 0.015\<close> (included) to
  \<open>0.5 * speed * 0.015\<close> (excluded), and Z is untouched; otherwise the position is left
  as it was.
\<close>

theorem jitter_applied:
  assumes r1: "0 \<le> r1" "r1 < 1" and r2: "0 \<le> r2" "r2 < 1"
  shows "(1 < sp \<and> \<not> j \<longrightarrow>
      posX (CameraManager sp j r1 r2 cam) = posX cam + (r1 - 0.5) * (sp * 0.015) \<and>
      posY (CameraManager sp j r1 r2 cam) = posY cam + (r2 - 0.5) * (sp * 0.015) \<and>
      posZ (CameraManager sp j r1 r2 cam) = posZ cam \<and>
      - 0.5 * (sp * 0.015) \<le> posX (CameraManager sp j r1 r2 cam) - posX cam \<and>
      posX (CameraManager sp j r1 r2 cam) - posX cam < 0.5 * (sp * 0.015) \<and>
      - 0.5 * (sp * 0.015) \<le> posY (CameraManager sp j r1 r2 cam) - posY cam \<and>
      posY (CameraManager sp j r1 r2 cam) - posY cam < 0.5 * (sp * 0.015)) \<and>
    (\<not> (1 < sp \<and> \<not> j) \<longrightarrow>
      posX (CameraManager sp j r1 r2 cam) = posX cam \<and>
      posY (CameraManager sp j r1 r2 cam) = posY cam \<and>
      posZ (CameraManager sp j r1 r2 cam) = posZ cam)"
proof -
  have still: "posX (CameraManager sp j r1 r2 cam) = posX cam \<and>
      posY (CameraManager sp j r1 r2 cam) = posY cam \<and>
      posZ (CameraManager sp j r1 r2 cam) = posZ cam" if "\<not> (1 < sp \<and> \<not> j)"
    using that by (auto simp: CameraManager_def Let_def)
  have moved: "posX (CameraManager sp j r1 r2 cam) = posX cam + (r1 - 0.5) * (sp * 0.015) \<and>
      posY (CameraManager sp j r1 r2 cam) = posY cam + (r2 - 0.5) * (sp * 0.015) \<and>
      posZ (CameraManager sp j r1 r2 cam) = posZ cam" if "1 < sp \<and> \<not> j"
    using that by (simp add: CameraManager_def Let_def)
  have bounds: "- 0.5 * (sp * 0.015) \<le> (r - 0.5) * (sp * 0.015) \<and>
      (r - 0.5) * (sp * 0.015) < 0.5 * (sp * 0.015)" if "1 < sp" "0 \<le> r" "r < 1" for r :: real
  proof -
    have pos: "0 < sp * 0.015" using that(1) by simp
    have "- 0.5 \<le> r - 0.5" "r - 0.5 < 0.5" using that(2,3) by simp_all
    then show ?thesis using pos
      by (metis mult_le_cancel_right_pos mult_less_cancel_right_pos)
  qed
  show ?thesis
  proof (cases "1 < sp \<and> \<not> j")
    case True
    then have sp: "1 < sp" by simp
    show ?thesis
      using True moved [OF True] bounds [OF sp r1] bounds [OF sp r2] by simp
  next
    case False
    then show ?thesis using still [OF False] by blast
  qed
qed

theorem jitter_applied_witness:
  "(0::real) \<le> 0 \<and> (0::real) < 1 \<and> (0::real) \<le> 0.75 \<and> (0.75::real) < 1 \<and>
   posX (CameraManager 8 False 0 0.75 (PerspectiveCamera 1024)) = - 0.06 \<and>
   posY (CameraManager 8 False 0 0.75 (PerspectiveCamera 1024)) = 0.03 \<and>
   posX (CameraManager 12 True 0 0.75 (PerspectiveCamera 1024)) = 0 \<and>
   posX (CameraManager 1 False 0 0.75 (PerspectiveCamera 1024)) = 0"
proof -
  have r1: "(0::real) \<le> 0" "(0::real) < 1" and r2: "(0::real) \<le> 0.75" "(0.75::real) < 1"
    by simp_all
  show ?thesis
    using jitter_applied [OF r1 r2, of "8" False "PerspectiveCamera 1024"]
      jitter_applied [OF r1 r2, of "12" True "PerspectiveCamera 1024"]
      jitter_applied [OF r1 r2, of "1" False "PerspectiveCamera 1024"]
    by (simp add: PerspectiveCamera_def)
qed

section \<open>Orbit controls and the root container\<close>

text \<open>
  C8, as stated, fails: a window 768 pixels wide is not narrow, yet in the black-hole
  scene rotation is disabled there.
\<close>

theorem orbit_rotate_counterexample:
  "\<not> (enableRotate (OrbitControls ''blackhole'' 768) \<longleftrightarrow>
        ''blackhole'' \<noteq> ''travel'' \<and> \<not> isMobile 768)"
  by (simp add: OrbitControls_def isMobile_def)

text \<open>
  C8, amended. Rotation is enabled if and only if the scene is not \<open>'travel'\<close> and the
  window is more than 768 pixels wide, which is "not narrow" at every width but 768; zoom
  is enabled if and only if the scene is \<open>'contact'\<close>; panning is disabled in every scene.
\<close>

theorem orbit_controls:
  "(enableRotate (OrbitControls scene w) \<longleftrightarrow> scene \<noteq> ''travel'' \<and> 768 < w) \<and>
   (w \<noteq> 768 \<longrightarrow>
      (enableRotate (OrbitControls scene w) \<longleftrightarrow> scene \<noteq> ''travel'' \<and> \<not> isMobile w)) \<and>
   (enableZoom (OrbitControls scene w) \<longleftrightarrow> scene = ''contact'') \<and>
   \<not> enablePan (OrbitControls scene w)"
  by (auto simp: OrbitControls_def isMobile_def)

theorem orbit_controls_witness:
  "(1024::int) \<noteq> 768 \<and> \<not> isMobile 1024 \<and>
   enableRotate (OrbitControls ''earth'' 1024) \<and>
   \<not> enableRotate (OrbitControls ''travel'' 1024) \<and>
   \<not> enableZoom (OrbitControls ''earth'' 1024) \<and>
   enableZoom (OrbitControls ''contact'' 1024)"
  using orbit_controls [of "''earth''" 1024] orbit_controls [of "''travel''" 1024]
    orbit_controls [of "''contact''" 1024]
  by (simp add: isMobile_def)

text \<open>
  C10. The root container has \<open>overflowY\<close> hidden exactly in the travel scene and auto in
  every other scene, and no other property of its style depends on the scene.
\<close>

theorem root_overflow:
  "(overflowY (rootStyle scene) = ''hidden'' \<longleftrightarrow> scene = ''travel'') \<and>
   (overflowY (rootStyle scene) = ''auto'' \<longleftrightarrow> scene \<noteq> ''travel'') \<and>
   (rootStyle scene)\<lparr>overflowY := v\<rparr> = (rootStyle scene')\<lparr>overflowY := v\<rparr>"
  by (simp add: rootStyle_def)

end
